theory Spec2Isabelle
  imports Main "HOL-Library.Sublist"
begin

section \<open>Strings, character classes and the string primitives of the formatter\<close>

text \<open>
  The formatter is JavaScript; its strings are sequences of UTF-16 code units. A
  \<^typ>\<open>char\<close> stands for one code unit below 256, so \<^typ>\<open>string\<close> covers the
  Latin-1 range. In that range the regular-expression class \<^verbatim>\<open>\s\<close> and
  \<^verbatim>\<open>String.prototype.trim\<close> agree on the seven characters TAB, LF, VT, FF, CR, SPACE
  and NBSP; the line terminators (what \<^verbatim>\<open>.\<close> refuses and where \<^verbatim>\<open>^\<close> matches under
  the \<^verbatim>\<open>m\<close> flag) are LF and CR; \<^verbatim>\<open>\w\<close> is \<^verbatim>\<open>[A-Za-z0-9_]\<close>.
\<close>

definition is_space :: "char \<Rightarrow> bool" where
  "is_space c \<longleftrightarrow>
     c \<in> set [CHR 0x09, CHR 0x0A, CHR 0x0B, CHR 0x0C, CHR 0x0D, CHR 0x20, CHR 0xA0]"

definition is_lt :: "char \<Rightarrow> bool" where
  "is_lt c \<longleftrightarrow> c = CHR 0x0A \<or> c = CHR 0x0D"

definition dot :: "char \<Rightarrow> bool" where
  "dot c \<longleftrightarrow> \<not> is_lt c"

definition any_char :: "char \<Rightarrow> bool" where
  "any_char c \<longleftrightarrow> True"

definition is_digit :: "char \<Rightarrow> bool" where
  "is_digit c \<longleftrightarrow> (let n = (of_char c :: nat) in 48 \<le> n \<and> n \<le> 57)"

definition is_word :: "char \<Rightarrow> bool" where
  "is_word c \<longleftrightarrow> (let n = (of_char c :: nat) in
     (48 \<le> n \<and> n \<le> 57) \<or> (65 \<le> n \<and> n \<le> 90) \<or> n = 95 \<or> (97 \<le> n \<and> n \<le> 122))"

text \<open>\<^verbatim>\<open>s.trim()\<close>\<close>

definition trim :: "string \<Rightarrow> string" where
  "trim s = rev (dropWhile is_space (rev (dropWhile is_space s)))"

text \<open>\<^verbatim>\<open>s.replace(/\s+/g, ' ')\<close>: every maximal run of white space becomes one space.\<close>

function collapse_ws :: "string \<Rightarrow> string" where
  "collapse_ws [] = []"
| "collapse_ws (c # cs) =
     (if is_space c then CHR '' '' # collapse_ws (dropWhile is_space cs)
      else c # collapse_ws cs)"
  by pat_completeness auto
termination
  by (relation "measure length") (auto simp: length_dropWhile_le less_Suc_eq_le)

text \<open>\<^verbatim>\<open>lines.join('\n')\<close>\<close>

fun join_nl :: "string list \<Rightarrow> string" where
  "join_nl [] = []"
| "join_nl [x] = x"
| "join_nl (x # y # ys) = x @ CHR 0x0A # join_nl (y # ys)"

text \<open>\<^verbatim>\<open>s.slice(2, -2)\<close>\<close>

definition slice_2_m2 :: "string \<Rightarrow> string" where
  "slice_2_m2 s = take (length s - 2 - 2) (drop 2 s)"

text \<open>The decimal numeral of an array index, as a template literal prints it.\<close>

function show_nat :: "nat \<Rightarrow> string" where
  "show_nat n =
     (if n < 10 then [char_of (48 + n)]
      else show_nat (n div 10) @ [char_of (48 + n mod 10)])"
  by pat_completeness auto
termination
  by (relation "measure id") auto

declare show_nat.simps [simp del]

text \<open>
  A value that may be \<^verbatim>\<open>undefined\<close> printed inside a template literal, and the
  truthiness of a string that may be absent.
\<close>

definition js_str :: "string option \<Rightarrow> string" where
  "js_str v = (case v of None \<Rightarrow> ''undefined'' | Some s \<Rightarrow> s)"

definition truthy :: "string option \<Rightarrow> bool" where
  "truthy v = (case v of None \<Rightarrow> False | Some s \<Rightarrow> s \<noteq> [])"

section \<open>Data model\<close>

text \<open>
  An attribute has a name and a value that is \<^verbatim>\<open>null\<close> (\<open>None\<close>) when the attribute
  is valueless. A node carries the fields the formatter reads: \<^verbatim>\<open>type\<close>, \<^verbatim>\<open>name\<close>,
  \<^verbatim>\<open>attrs\<close>, \<^verbatim>\<open>children\<close> and \<^verbatim>\<open>value\<close>. An absent \<^verbatim>\<open>attrs\<close> or \<^verbatim>\<open>children\<close> array
  is the empty list: the source reads them only through
  \<^verbatim>\<open>attrs && attrs.length > 0\<close>, \<^verbatim>\<open>children && children.length > 0\<close> and
  \<^verbatim>\<open>!children || children.length === 0\<close>, which do not tell the two apart.
\<close>

record attr =
  aname :: string
  avalue :: "string option"

datatype node =
  Node (ntype: string) (nname: "string option") (nattrs: "attr list")
       (nchildren: "node list") (nvalue: "string option")

text \<open>The object literal \<^verbatim>\<open>{ type: 'text', value }\<close>.\<close>

definition text_node :: "string \<Rightarrow> node" where
  "text_node v = Node ''text'' None [] [] (Some v)"

text \<open>
  A block of the control-flow stack. The stack is a list whose head is the top:
  \<^verbatim>\<open>push\<close> is \<open>#\<close>, \<^verbatim>\<open>pop\<close> takes the head, \<^verbatim>\<open>stack[stack.length - 1]\<close> is the head.
\<close>

record block =
  directive :: string
  indent :: string
  contentIndent :: string

datatype error = TypeError

section \<open>Directive classifier\<close>

definition isSelfClosingTag :: "string \<Rightarrow> bool" where
  "isSelfClosingTag name' \<longleftrightarrow>
     name' \<in> set [''area'', ''base'', ''br'', ''col'', ''embed'', ''hr'', ''img'', ''input'',
                  ''link'', ''meta'', ''source'', ''track'', ''wbr'']"

text \<open>
  The suffixes of a string that start a line: where \<^verbatim>\<open>^\<close> matches under the \<^verbatim>\<open>m\<close>
  flag, apart from position 0.
\<close>

fun line_starts :: "string \<Rightarrow> string list" where
  "line_starts [] = []"
| "line_starts (c # cs) = (if is_lt c then cs # line_starts cs else line_starts cs)"

text \<open>
  \<^verbatim>\<open>\b\<close> between the character \<open>p\<close> and the rest \<open>r\<close> of the input: exactly one of the
  two sides is a word character (the end of the input is none).
\<close>

definition word_boundary :: "char \<Rightarrow> string \<Rightarrow> bool" where
  "word_boundary p r \<longleftrightarrow> is_word p \<noteq> (case r of [] \<Rightarrow> False | c # _ \<Rightarrow> is_word c)"

text \<open>\<^verbatim>\<open>@(k1|k2|...)\b\<close> matched at the head of \<open>u\<close>, for the keywords \<open>kws\<close>.\<close>

definition kw_at :: "string list \<Rightarrow> string \<Rightarrow> bool" where
  "kw_at kws u \<longleftrightarrow>
     list_ex (\<lambda>k. prefix (CHR ''@'' # k) u
                 \<and> word_boundary (last (CHR ''@'' # k)) (drop (Suc (length k)) u)) kws"

text \<open>\<^verbatim>\<open>/^@(k1|k2|...)\b/m.test(t)\<close>\<close>

definition kw_test :: "string list \<Rightarrow> string \<Rightarrow> bool" where
  "kw_test kws t \<longleftrightarrow> list_ex (kw_at kws) (t # line_starts t)"

text \<open>
  The alternation \<^verbatim>\<open>if|for|switch|defer|else if|else|case|default|error\<close>, which the
  classifier and the separator of the segmenter both spell out, and the alternation
  \<^verbatim>\<open>else if|else|placeholder|loading|error\<close> of the chain classifier.
\<close>

definition directiveKeywords :: "string list" where
  "directiveKeywords =
     [''if'', ''for'', ''switch'', ''defer'', ''else if'', ''else'', ''case'', ''default'',
      ''error'']"

definition chainKeywords :: "string list" where
  "chainKeywords = [''else if'', ''else'', ''placeholder'', ''loading'', ''error'']"

definition isControlFlowDirective :: "string \<Rightarrow> bool" where
  "isControlFlowDirective text' \<longleftrightarrow>
     kw_test directiveKeywords (trim (collapse_ws text'))"

definition isIfChainDirective :: "string \<Rightarrow> bool" where
  "isIfChainDirective text' \<longleftrightarrow>
     kw_test chainKeywords (trim (collapse_ws text'))"

text \<open>
  \<^verbatim>\<open>/^\s*{{\s*.*?\s*}}\s*$/.test(text)\<close>. The leading white space ends at the first
  character that is none, which has to open \<^verbatim>\<open>{{\<close>; the trailing white space starts
  after the last one, which has to close \<^verbatim>\<open>}}\<close>; between the two delimiters the three
  factors \<^verbatim>\<open>\s*.*?\s*\<close> match iff no line terminator is left once the white space at
  both ends is taken off.
\<close>

definition isInterpolation :: "string \<Rightarrow> bool" where
  "isInterpolation text' \<longleftrightarrow>
     (case dropWhile is_space text' of
        c1 # c2 # r \<Rightarrow>
          c1 = CHR ''{'' \<and> c2 = CHR ''{'' \<and>
          (case dropWhile is_space (rev r) of
             d1 # d2 # w \<Rightarrow>
               d1 = CHR ''}'' \<and> d2 = CHR ''}'' \<and> \<not> list_ex is_lt (trim (rev w))
           | _ \<Rightarrow> False)
      | _ \<Rightarrow> False)"

text \<open>
  The shape the expression of \<^verbatim>\<open>isInterpolation\<close> denotes: white space, \<^verbatim>\<open>{{\<close>, white
  space, characters other than line terminators, white space, \<^verbatim>\<open>}}\<close>, white space.
\<close>

definition interpolation_shape :: "string \<Rightarrow> bool" where
  "interpolation_shape s \<longleftrightarrow>
     (\<exists>w1 w2 m w3 w4.
        s = w1 @ ''{{'' @ w2 @ m @ w3 @ ''}}'' @ w4
        \<and> (\<forall>c \<in> set (w1 @ w2 @ w3 @ w4). is_space c) \<and> (\<forall>c \<in> set m. \<not> is_lt c))"


text \<open>The white space at the end of a string: what \<^verbatim>\<open>trim\<close> takes off there.\<close>

definition trailing_ws :: "string \<Rightarrow> string" where
  "trailing_ws x = rev (takeWhile is_space (rev (dropWhile is_space x)))"

section \<open>Attribute formatter\<close>

text \<open>
  \<^verbatim>\<open>formatAttributes(attrs, indent)\<close>. The single-attribute call of the element
  formatter passes no indent, hence the optional argument.
\<close>

definition formatAttributes :: "attr list \<Rightarrow> string option \<Rightarrow> string" where
  "formatAttributes attrs ind =
     (if length attrs = 1 then
        (let a = attrs ! 0 in
         case avalue a of
           None \<Rightarrow> aname a
         | Some v \<Rightarrow> aname a @ ''=\"'' @ v @ ''\"'')
      else
        join_nl (map (\<lambda>a.
          case avalue a of
            None \<Rightarrow> js_str ind @ aname a
          | Some v \<Rightarrow> js_str ind @ (aname a @ ''=\"'' @ v @ ''\"'')) attrs))"

section \<open>Control-flow formatter\<close>

text \<open>
  \<^verbatim>\<open>.*?{\<close>: the lazy star tries to stop first, so the match ends at the first
  \<^verbatim>\<open>{\<close>, and fails at a line terminator before it. The result is the matched text
  and the rest of the input.
\<close>

fun lazy_to_brace :: "string \<Rightarrow> (string \<times> string) option" where
  "lazy_to_brace [] = None"
| "lazy_to_brace (c # cs) =
     (if c = CHR ''{'' then Some ([c], cs)
      else if is_lt c then None
      else map_option (\<lambda>(m, r). (c # m, r)) (lazy_to_brace cs))"

text \<open>
  \<^verbatim>\<open>\w+.*?{\<close>: the greedy plus takes one word character, tries to take more, and
  hands over to \<^verbatim>\<open>.*?{\<close> only when that fails.
\<close>

fun word_plus_to_brace :: "string \<Rightarrow> (string \<times> string) option" where
  "word_plus_to_brace [] = None"
| "word_plus_to_brace (c # cs) =
     (if is_word c then
        (case word_plus_to_brace cs of
           Some (m, r) \<Rightarrow> Some (c # m, r)
         | None \<Rightarrow> map_option (\<lambda>(m, r). (c # m, r)) (lazy_to_brace cs))
      else None)"

text \<open>\<^verbatim>\<open>s.match(/^(@\w+.*?){/)\<close>: the whole match, \<^verbatim>\<open>{\<close> included.\<close>

definition directive_match :: "string \<Rightarrow> string option" where
  "directive_match s =
     (case s of
        [] \<Rightarrow> None
      | c # r \<Rightarrow>
          if c = CHR ''@'' then map_option (\<lambda>(m, _). c # m) (word_plus_to_brace r)
          else None)"

text \<open>
  \<^verbatim>\<open>directive.match(/^(@\w+(?:\s+if)?)\s*(.*)/)\<close>: the two groups. Whatever follows
  \<^verbatim>\<open>@\w+\<close> in this expression can match the empty string, so every greedy factor
  keeps its longest match: the word, then white space and \<^verbatim>\<open>if\<close> when they are
  there, then white space, then the rest of the line.
\<close>

definition parts_match :: "string \<Rightarrow> (string \<times> string) option" where
  "parts_match s =
     (case s of
        [] \<Rightarrow> None
      | c # r \<Rightarrow>
          if c = CHR ''@'' \<and> takeWhile is_word r \<noteq> [] then
            (let w = takeWhile is_word r;
                 r1 = dropWhile is_word r;
                 ws = takeWhile is_space r1;
                 r2 = dropWhile is_space r1;
                 (directiveName, r3) =
                   (if ws \<noteq> [] \<and> prefix ''if'' r2 then (c # w @ ws @ ''if'', drop 2 r2)
                    else (c # w, r1));
                 condition = takeWhile dot (dropWhile is_space r3)
             in Some (directiveName, condition))
          else None)"

definition formatControlFlow :: "node \<Rightarrow> string \<Rightarrow> error + string" where
  "formatControlFlow node' ind =
     (case nvalue node' of
        None \<Rightarrow> Inl TypeError
      | Some v \<Rightarrow>
          (let content = trim v;
               normalizedContent = collapse_ws content
           in case directive_match normalizedContent of
                None \<Rightarrow> Inr (ind @ content)
              | Some fullMatch \<Rightarrow>
                  (let directive' = trim (butlast fullMatch)
                   in case parts_match directive' of
                        Some (directiveName, condition) \<Rightarrow>
                          if condition \<noteq> [] then
                            Inr (ind @ directiveName @ '' '' @ trim condition @ '' {'')
                          else Inr (ind @ directive' @ '' {'')
                      | None \<Rightarrow> Inr (ind @ directive' @ '' {''))))"

section \<open>Interpolation formatter\<close>

text \<open>\<^verbatim>\<open>\s*}}\<close>: white space cannot open the delimiter, so the greedy star keeps its run.\<close>

definition close_at :: "string \<Rightarrow> string option" where
  "close_at s =
     (case dropWhile is_space s of
        d1 # d2 # r \<Rightarrow> if d1 = CHR ''}'' \<and> d2 = CHR ''}'' then Some r else None
      | _ \<Rightarrow> None)"

text \<open>
  \<^verbatim>\<open>(X*?)\s*}}\<close> for a character class \<open>X\<close>: the lazy star first tries to close, and
  takes one more character of the class only when that fails. The result is the group
  and the rest of the input.
\<close>

fun lazy_close :: "(char \<Rightarrow> bool) \<Rightarrow> string \<Rightarrow> (string \<times> string) option" where
  "lazy_close X [] = map_option (\<lambda>r. ([], r)) (close_at [])"
| "lazy_close X (c # cs) =
     (case close_at (c # cs) of
        Some r \<Rightarrow> Some ([], r)
      | None \<Rightarrow>
          if X c then map_option (\<lambda>(m, r). (c # m, r)) (lazy_close X cs) else None)"

text \<open>
  \<^verbatim>\<open>\s*(X*?)\s*}}\<close>: the greedy leading star takes a white-space character, goes
  on, and gives it back only when the rest cannot match.
\<close>

fun ws_lazy_close :: "(char \<Rightarrow> bool) \<Rightarrow> string \<Rightarrow> (string \<times> string) option" where
  "ws_lazy_close X [] = lazy_close X []"
| "ws_lazy_close X (c # cs) =
     (if is_space c then
        (case ws_lazy_close X cs of
           Some res \<Rightarrow> Some res
         | None \<Rightarrow> lazy_close X (c # cs))
      else lazy_close X (c # cs))"

text \<open>\<^verbatim>\<open>{{\s*(X*?)\s*}}\<close> at the head of the input.\<close>

definition interp_match :: "(char \<Rightarrow> bool) \<Rightarrow> string \<Rightarrow> (string \<times> string) option" where
  "interp_match X s =
     (case s of
        c1 # c2 # r \<Rightarrow>
          if c1 = CHR ''{'' \<and> c2 = CHR ''{'' then ws_lazy_close X r else None
      | _ \<Rightarrow> None)"

lemma close_at_shorter: "close_at s = Some r \<Longrightarrow> length r < length s"
proof -
  assume a: "close_at s = Some r"
  then obtain d1 d2 where "dropWhile is_space s = d1 # d2 # r"
    by (auto simp: close_at_def split: list.splits if_splits)
  then have "length (dropWhile is_space s) = Suc (Suc (length r))"
    by simp
  moreover have "length (dropWhile is_space s) \<le> length s"
    by (rule length_dropWhile_le)
  ultimately show ?thesis by simp
qed

lemma lazy_close_shorter: "lazy_close X s = Some (m, r) \<Longrightarrow> length r < length s"
proof (induction s arbitrary: m)
  case Nil
  then show ?case by (auto simp: close_at_def)
next
  case (Cons c cs)
  show ?case
  proof (cases "close_at (c # cs)")
    case (Some r')
    with Cons.prems have "r' = r" by simp
    with Some show ?thesis using close_at_shorter by blast
  next
    case None
    with Cons.prems obtain m' where "lazy_close X cs = Some (m', r)"
      by (auto split: if_splits)
    then have "length r < length cs" by (rule Cons.IH)
    then show ?thesis by simp
  qed
qed

lemma ws_lazy_close_shorter: "ws_lazy_close X s = Some (m, r) \<Longrightarrow> length r < length s"
proof (induction s)
  case Nil
  then show ?case by (auto simp: close_at_def)
next
  case (Cons c cs)
  show ?case
  proof (cases "is_space c \<and> ws_lazy_close X cs \<noteq> None")
    case True
    with Cons.prems have "ws_lazy_close X cs = Some (m, r)" by auto
    then have "length r < length cs" by (rule Cons.IH)
    then show ?thesis by simp
  next
    case False
    with Cons.prems have "lazy_close X (c # cs) = Some (m, r)"
      by (auto split: if_splits option.splits)
    then show ?thesis by (rule lazy_close_shorter)
  qed
qed

lemma interp_match_shorter: "interp_match X s = Some (m, r) \<Longrightarrow> length r < length s"
proof -
  assume a: "interp_match X s = Some (m, r)"
  then obtain t where t: "s = CHR ''{'' # CHR ''{'' # t" "ws_lazy_close X t = Some (m, r)"
    by (auto simp: interp_match_def split: list.splits if_splits)
  from t(2) have "length r < length t" by (rule ws_lazy_close_shorter)
  with t(1) show ?thesis by simp
qed

text \<open>
  \<^verbatim>\<open>text.replace(/{{\s*(.*?)\s*}}/g, ...)\<close>: the leftmost match is replaced and the scan
  goes on behind it. Both branches of the callback return the same string.
\<close>

function replace_interp :: "string \<Rightarrow> string" where
  "replace_interp [] = []"
| "replace_interp (c # cs) =
     (case interp_match dot (c # cs) of
        Some (content, rest) \<Rightarrow> ''{{ '' @ trim content @ '' }}'' @ replace_interp rest
      | None \<Rightarrow> c # replace_interp cs)"
  by pat_completeness auto
termination
  by (relation "measure length") (auto dest: interp_match_shorter)

definition formatInterpolation :: "string \<Rightarrow> string \<Rightarrow> string" where
  "formatInterpolation text' ind = ind @ replace_interp text'"

section \<open>Text segmenter\<close>

text \<open>
  \<^verbatim>\<open>{{[\s\S]*?}}\<close> behind the opening delimiter: the shortest run of any characters
  up to the first \<^verbatim>\<open>}}\<close>. The result is the run and the rest of the input.
\<close>

fun lazy_any_close :: "string \<Rightarrow> (string \<times> string) option" where
  "lazy_any_close [] = None"
| "lazy_any_close [c] = None"
| "lazy_any_close (c # d # cs) =
     (if c = CHR ''}'' \<and> d = CHR ''}'' then Some ([], cs)
      else map_option (\<lambda>(m, r). (c # m, r)) (lazy_any_close (d # cs)))"

definition inner_match :: "string \<Rightarrow> (string \<times> string) option" where
  "inner_match s =
     (case s of
        c1 # c2 # r \<Rightarrow>
          if c1 = CHR ''{'' \<and> c2 = CHR ''{'' then
            map_option (\<lambda>(m, rest). (''{{'' @ m @ ''}}'', rest)) (lazy_any_close r)
          else None
      | _ \<Rightarrow> None)"

lemma lazy_any_close_shorter: "lazy_any_close s = Some (m, r) \<Longrightarrow> length r < length s"
  by (induction s arbitrary: m rule: lazy_any_close.induct) (auto split: if_splits)

lemma inner_match_shorter: "inner_match s = Some (m, r) \<Longrightarrow> length r < length s"
  by (auto simp: inner_match_def split: list.splits if_splits dest: lazy_any_close_shorter)

text \<open>
  The inner callback: \<^verbatim>\<open>match.replace(/{{[\s\S]*?}}/g, ...)\<close>, which rebuilds every
  span as \<^verbatim>\<open>{{ inner }}\<close> with the white space of \<open>inner\<close> collapsed and trimmed
  (\<^verbatim>\<open>[\s\n\r]+\<close> is \<^verbatim>\<open>\s+\<close>).
\<close>

function format_match :: "string \<Rightarrow> string" where
  "format_match [] = []"
| "format_match (c # cs) =
     (case inner_match (c # cs) of
        Some (interpolation, rest) \<Rightarrow>
          (let innerContent = trim (collapse_ws (slice_2_m2 interpolation))
           in ''{{ '' @ innerContent @ '' }}'' @ format_match rest)
      | None \<Rightarrow> c # format_match cs)"
  by pat_completeness auto
termination
  by (relation "measure length") (auto dest: inner_match_shorter)

text \<open>
  \<^verbatim>\<open>content.replace(/{{\s*[\s\S]*?\s*}}/g, ...)\<close>: every match is formatted, pushed
  on \<open>interpolations\<close> and replaced by the placeholder that carries its index. The
  result is the protected content and the final array.
\<close>

function protect :: "string \<Rightarrow> string list \<Rightarrow> string \<times> string list" where
  "protect [] interpolations = ([], interpolations)"
| "protect (c # cs) interpolations =
     (case interp_match any_char (c # cs) of
        Some (_, rest) \<Rightarrow>
          (let match' = take (length (c # cs) - length rest) (c # cs);
               formattedMatch = format_match match';
               (p, is') = protect rest (interpolations @ [formattedMatch])
           in (''__INTERPOLATION'' @ show_nat (length interpolations) @ ''__'' @ p, is'))
      | None \<Rightarrow>
          (let (p, is') = protect cs interpolations in (c # p, is')))"
  by pat_completeness auto
termination
  by (relation "measure (\<lambda>(s, _). length s)") (auto dest: interp_match_shorter)

text \<open>
  The separator \<^verbatim>\<open>(\}|\@(?:if|for|switch|defer|else if|else|case|default|error).*?{)\<close>
  at the head of the input: the closer, or \<^verbatim>\<open>@\<close>, the first keyword in the order of
  the alternation behind which \<^verbatim>\<open>.*?{\<close> matches, and that match. The result is the
  captured text and the rest of the input.
\<close>

fun kw_to_brace :: "string list \<Rightarrow> string \<Rightarrow> (string \<times> string) option" where
  "kw_to_brace [] r = None"
| "kw_to_brace (k # ks) r =
     (if prefix k r then
        (case lazy_to_brace (drop (length k) r) of
           Some (m, rest) \<Rightarrow> Some (k @ m, rest)
         | None \<Rightarrow> kw_to_brace ks r)
      else kw_to_brace ks r)"

definition sep_match :: "string \<Rightarrow> (string \<times> string) option" where
  "sep_match s =
     (case s of
        [] \<Rightarrow> None
      | c # r \<Rightarrow>
          if c = CHR ''}'' then Some ([c], r)
          else if c = CHR ''@'' then
            map_option (\<lambda>(m, rest). (c # m, rest)) (kw_to_brace directiveKeywords r)
          else None)"

lemma lazy_to_brace_shorter: "lazy_to_brace s = Some (m, r) \<Longrightarrow> length r < length s"
  by (induction s arbitrary: m) (auto split: if_splits)

lemma kw_to_brace_shorter: "kw_to_brace ks s = Some (m, r) \<Longrightarrow> length r < Suc (length s)"
proof (induction ks)
  case Nil
  then show ?case by simp
next
  case (Cons k ks)
  show ?case
  proof (cases "prefix k s \<and> lazy_to_brace (drop (length k) s) \<noteq> None")
    case True
    with Cons.prems obtain m' where "lazy_to_brace (drop (length k) s) = Some (m', r)"
      by auto
    then have "length r < length (drop (length k) s)" by (rule lazy_to_brace_shorter)
    then show ?thesis by simp
  next
    case False
    with Cons.prems have "kw_to_brace ks s = Some (m, r)"
      by (auto split: if_splits option.splits)
    then show ?thesis by (rule Cons.IH)
  qed
qed

lemma sep_match_shorter: "sep_match s = Some (m, r) \<Longrightarrow> length r < length s"
  by (auto simp: sep_match_def split: list.splits if_splits dest: kw_to_brace_shorter)

text \<open>
  \<^verbatim>\<open>s.split(separator)\<close> with a capturing separator that never matches the empty
  string: the text before each match, then the captured match; at the end the text that
  is left. \<open>cur\<close> is the text read since the last match, reversed.
\<close>

function split_sep :: "string \<Rightarrow> string \<Rightarrow> string list" where
  "split_sep cur [] = [rev cur]"
| "split_sep cur (c # cs) =
     (case sep_match (c # cs) of
        Some (m, rest) \<Rightarrow> rev cur # m # split_sep [] rest
      | None \<Rightarrow> split_sep (c # cur) cs)"
  by pat_completeness auto
termination
  by (relation "measure (\<lambda>(_, s). length s)") (auto dest: sep_match_shorter)

text \<open>
  \<^verbatim>\<open>__INTERPOLATION(\d+)__\<close> at the head of the input: the digits and the rest of the
  input.
\<close>

definition placeholder_match :: "string \<Rightarrow> (string \<times> string) option" where
  "placeholder_match s =
     (if prefix ''__INTERPOLATION'' s then
        (let r = drop (length ''__INTERPOLATION'') s;
             ds = takeWhile is_digit r;
             r' = dropWhile is_digit r
         in if ds \<noteq> [] \<and> prefix ''__'' r' then Some (ds, drop 2 r') else None)
      else None)"

text \<open>
  \<^verbatim>\<open>interpolations[index]\<close> for the captured digits, printed: a string of digits is an
  array index only if it is the decimal numeral of a number, and a missing element
  prints as \<^verbatim>\<open>undefined\<close>.
\<close>

definition index_interpolation :: "string list \<Rightarrow> string \<Rightarrow> string" where
  "index_interpolation interpolations ds =
     (case filter (\<lambda>i. show_nat i = ds) [0..<length interpolations] of
        [] \<Rightarrow> ''undefined''
      | i # _ \<Rightarrow> interpolations ! i)"

lemma placeholder_match_shorter:
  "placeholder_match s = Some (ds, r) \<Longrightarrow> length r < length s"
proof -
  assume a: "placeholder_match s = Some (ds, r)"
  then have p: "prefix ''__INTERPOLATION'' s"
    and r: "r = drop 2 (dropWhile is_digit (drop (length ''__INTERPOLATION'') s))"
    by (auto simp: placeholder_match_def Let_def split: if_splits)
  from p obtain t where t: "s = ''__INTERPOLATION'' @ t"
    by (auto simp: prefix_def)
  have "length (dropWhile is_digit t) \<le> length t"
    by (rule length_dropWhile_le)
  with r t show ?thesis by simp
qed

text \<open>\<^verbatim>\<open>part.replace(/__INTERPOLATION(\d+)__/g, (_, index) => interpolations[index])\<close>\<close>

function restore :: "string list \<Rightarrow> string \<Rightarrow> string" where
  "restore interpolations [] = []"
| "restore interpolations (c # cs) =
     (case placeholder_match (c # cs) of
        Some (index, rest) \<Rightarrow>
          index_interpolation interpolations index @ restore interpolations rest
      | None \<Rightarrow> c # restore interpolations cs)"
  by pat_completeness auto
termination
  by (relation "measure (\<lambda>(_, s). length s)") (auto dest: placeholder_match_shorter)

text \<open>
  \<^verbatim>\<open>splitTextNode(node)\<close>. The first guard returns the node itself for an absent or
  empty value; the second test of the same condition is kept as the source has it.
\<close>

definition splitTextNode :: "node \<Rightarrow> node list" where
  "splitTextNode node' =
     (if \<not> truthy (nvalue node') then [node']
      else
        (let content = the (nvalue node') in
         if content = [] then []
         else
           (let (protectedContent, interpolations) = protect content [] in
            map (\<lambda>part. text_node (restore interpolations part))
              (filter (\<lambda>part. part \<noteq> [])
                (map trim
                  (filter (\<lambda>part. part \<noteq> []) (split_sep [] protectedContent)))))))"

text \<open>
  What a value has to be free of for the segmenter to leave it in one piece: a place
  where the separator matches (a closer or a directive marker), and a place where the
  placeholder expression matches.
\<close>

definition has_separator :: "string \<Rightarrow> bool" where
  "has_separator s \<longleftrightarrow> list_ex (\<lambda>t. sep_match t \<noteq> None) (suffixes s)"

definition has_placeholder :: "string \<Rightarrow> bool" where
  "has_placeholder s \<longleftrightarrow> list_ex (\<lambda>t. placeholder_match t \<noteq> None) (suffixes s)"

section \<open>Element formatter\<close>

text \<open>\<^verbatim>\<open>hasContent(children)\<close>\<close>

definition hasContent :: "node list \<Rightarrow> bool" where
  "hasContent children \<longleftrightarrow>
     list_ex (\<lambda>child.
       if ntype child = ''text'' then
         (case nvalue child of None \<Rightarrow> False | Some v \<Rightarrow> v \<noteq> [] \<and> trim v \<noteq> [])
       else True) children"

text \<open>
  The indent of the next line: the \<^verbatim>\<open>contentIndent\<close> of the top block, or the base
  indent when no block is open. The source writes the conditional out at each use.
\<close>

definition currentIndent :: "block list \<Rightarrow> string \<Rightarrow> string" where
  "currentIndent stack base = (case stack of [] \<Rightarrow> base | b # _ \<Rightarrow> contentIndent b)"

text \<open>\<^verbatim>\<open>if (formatted.trim()) results.push(formatted)\<close>\<close>

definition push_formatted :: "string \<Rightarrow> string list \<Rightarrow> string list" where
  "push_formatted formatted results =
     (if trim formatted \<noteq> [] then results @ [formatted] else results)"

text \<open>
  One attribute as the specification words it: the bare name when the attribute is
  valueless, \<^verbatim>\<open>name="value"\<close> otherwise. The theorems on attributes are stated with it.
\<close>

definition attrText :: "attr \<Rightarrow> string" where
  "attrText a =
     (case avalue a of None \<Rightarrow> aname a | Some v \<Rightarrow> aname a @ ''=\"'' @ v @ ''\"'')"

text \<open>
  The opening tag that \<^verbatim>\<open>formatElement\<close> builds in \<^verbatim>\<open>result\<close> before it decides on
  the layout.
\<close>

definition openingTag :: "string \<Rightarrow> attr list \<Rightarrow> bool \<Rightarrow> string \<Rightarrow> string" where
  "openingTag name' attrs elementHasContent ind =
     (let hasAttributes = (0 < length attrs);
          hasSingleAttr = (hasAttributes \<and> length attrs = 1);
          result = ind @ ''<'' @ name'
      in if hasAttributes then
           (if hasSingleAttr then result @ '' '' @ formatAttributes attrs None
            else
              (let attrIndent = (if elementHasContent then ''    '' else ''  '')
               in result @ [CHR 0x0A] @ formatAttributes attrs (Some (ind @ attrIndent))))
           @ ''>''
         else result @ ''>'')"

text \<open>The number of nodes of a tree: what the recursion of the formatter descends on.\<close>

fun node_count :: "node \<Rightarrow> nat" where
  "node_count (Node t n a cs v) = Suc (sum_list (map node_count cs))"

lemma node_count_pos: "0 < node_count n"
  by (cases n) simp

lemma node_count_three: "2 < 3 * node_count n + k"
  using node_count_pos [of n] by simp

lemma node_count_step: "Suc (Suc (3 * sum_list (map node_count (nchildren n)))) < 3 * node_count n"
  by (cases n) simp

text \<open>
  \<^verbatim>\<open>formatElement(node, indent)\<close>, with its loop over the children
  (\<open>formatElement_children\<close>) and the inner loop over the fragments of one text child
  (\<open>formatElement_parts\<close>). The loops carry the block stack and the collected lines.
\<close>

function formatElement :: "node \<Rightarrow> string \<Rightarrow> error + string"
  and formatElement_children ::
    "node list \<Rightarrow> string \<Rightarrow> block list \<times> string list \<Rightarrow> error + block list \<times> string list"
  and formatElement_parts ::
    "node list \<Rightarrow> string \<Rightarrow> block list \<times> string list \<Rightarrow> error + block list \<times> string list"
where
  "formatElement node' ind =
     (if ntype node' = ''comment'' then Inr (ind @ ''<!--'' @ js_str (nvalue node') @ ''-->'')
      else if ntype node' = ''text'' \<and> truthy (nvalue node') then
        (let trimmed = trim (js_str (nvalue node')) in
         if trimmed = [] then Inr []
         else if isControlFlowDirective trimmed then formatControlFlow node' ind
         else if isInterpolation trimmed then Inr (formatInterpolation trimmed ind)
         else Inr (ind @ trimmed))
      else
        (case nname node' of
           None \<Rightarrow> Inr []
         | Some name' \<Rightarrow>
             if name' = [] then Inr []
             else
               (let attrs = nattrs node';
                    children = nchildren node';
                    hasAttributes = (0 < length attrs);
                    hasChildren = (0 < length children);
                    elementHasContent = hasContent children;
                    hasSingleAttr = (hasAttributes \<and> length attrs = 1);
                    shouldBeSingleLine =
                      (\<not> elementHasContent \<and> (hasSingleAttr \<or> \<not> hasAttributes));
                    result = openingTag name' attrs elementHasContent ind
                in if shouldBeSingleLine then
                     (if \<not> isSelfClosingTag name' then Inr (result @ ''</'' @ name' @ ''>'')
                      else Inr result)
                   else if \<not> hasChildren \<and> isSelfClosingTag name' then Inr result
                   else if \<not> elementHasContent then
                     Inr (result @ [CHR 0x0A] @ ind @ ''</'' @ name' @ ''>'')
                   else if hasChildren then
                     (case formatElement_children children (ind @ ''  '') ([], []) of
                        Inl e \<Rightarrow> Inl e
                      | Inr (nestedBlockStack, childResults) \<Rightarrow>
                          Inr (result @ [CHR 0x0A] @ join_nl childResults
                                 @ [CHR 0x0A] @ ind @ ''</'' @ name' @ ''>''))
                   else Inr (result @ ''</'' @ name' @ ''>''))))"
| "formatElement_children [] childBaseIndent st = Inr st"
| "formatElement_children (child # rest) childBaseIndent (nestedBlockStack, childResults) =
     (if ntype child = ''text'' \<and> truthy (nvalue child) then
        (case formatElement_parts (splitTextNode child) childBaseIndent
                (nestedBlockStack, childResults) of
           Inl e \<Rightarrow> Inl e
         | Inr st' \<Rightarrow> formatElement_children rest childBaseIndent st')
      else
        (case formatElement child (currentIndent nestedBlockStack childBaseIndent) of
           Inl e \<Rightarrow> Inl e
         | Inr formatted \<Rightarrow>
             formatElement_children rest childBaseIndent
               (nestedBlockStack, push_formatted formatted childResults)))"
| "formatElement_parts [] childBaseIndent st = Inr st"
| "formatElement_parts (part # rest) childBaseIndent (nestedBlockStack, childResults) =
     (case nvalue part of
        None \<Rightarrow> Inl TypeError
      | Some value' \<Rightarrow>
          if isControlFlowDirective value' then
            (let cur = currentIndent nestedBlockStack childBaseIndent;
                 block' = \<lparr>directive = value', indent = cur, contentIndent = cur @ ''  ''\<rparr>
             in case formatControlFlow part cur of
                  Inl e \<Rightarrow> Inl e
                | Inr line \<Rightarrow>
                    formatElement_parts rest childBaseIndent
                      (block' # nestedBlockStack, childResults @ [line]))
          else if value' = ''}'' \<and> nestedBlockStack \<noteq> [] then
            (case nestedBlockStack of
               [] \<Rightarrow> Inl TypeError
             | block' # popped \<Rightarrow>
                 (case rest of
                    [] \<Rightarrow>
                      formatElement_parts rest childBaseIndent
                        (popped, childResults @ [indent block' @ ''}''])
                  | nextPart # rest' \<Rightarrow>
                      (case nvalue nextPart of
                         None \<Rightarrow> Inl TypeError
                       | Some nextValue \<Rightarrow>
                           if isIfChainDirective nextValue then
                             (case formatControlFlow nextPart [] of
                                Inl e \<Rightarrow> Inl e
                              | Inr chained \<Rightarrow>
                                  formatElement_parts rest' childBaseIndent
                                    (\<lparr>directive = nextValue, indent = indent block',
                                       contentIndent = indent block' @ ''  ''\<rparr> # popped,
                                     childResults
                                       @ [indent block' @ ''} '' @ trim chained]))
                           else
                             formatElement_parts rest childBaseIndent
                               (popped, childResults @ [indent block' @ ''}'']))))
          else
            (case formatElement (text_node value')
                    (currentIndent nestedBlockStack childBaseIndent) of
               Inl e \<Rightarrow> Inl e
             | Inr formatted \<Rightarrow>
                 formatElement_parts rest childBaseIndent
                   (nestedBlockStack, push_formatted formatted childResults)))"
  by pat_completeness auto
termination
  by (relation "measures
    [\<lambda>x. case x of
           Inl (n, _) \<Rightarrow> 3 * node_count n
         | Inr (Inl (cs, _)) \<Rightarrow> 3 * sum_list (map node_count cs) + 2
         | Inr (Inr _) \<Rightarrow> 4,
     \<lambda>x. case x of Inr (Inr (ps, _)) \<Rightarrow> length ps | _ \<Rightarrow> 0]")
    (auto simp: text_node_def node_count_step node_count_pos node_count_three)

declare formatElement.simps [simp del]
  formatElement_children.simps(2) [simp del]
  formatElement_parts.simps(2) [simp del]

section \<open>Root formatter\<close>

text \<open>
  The loop of \<^verbatim>\<open>processNode\<close> over \<^verbatim>\<open>nodesToProcess\<close>. \<^verbatim>\<open>result\<close> and
  \<^verbatim>\<open>blockStack\<close> belong to the enclosing \<^verbatim>\<open>formatRoot\<close> and are threaded through.
\<close>

fun processNode_loop ::
  "node list \<Rightarrow> string \<Rightarrow> block list \<times> string list \<Rightarrow> error + block list \<times> string list"
where
  "processNode_loop [] ind st = Inr st"
| "processNode_loop (n # rest) ind (blockStack, result) =
     (if ntype n = ''text'' then
        (if nvalue n = Some ''}'' then
           (case blockStack of
              [] \<Rightarrow> processNode_loop rest ind (blockStack, result)
            | block' # popped \<Rightarrow>
                (case rest of
                   [] \<Rightarrow> processNode_loop rest ind (popped, result @ [indent block' @ ''}''])
                 | nextNode # rest' \<Rightarrow>
                     if ntype nextNode = ''text'' then
                       (case nvalue nextNode of
                          None \<Rightarrow> Inl TypeError
                        | Some nextValue \<Rightarrow>
                            if isIfChainDirective nextValue then
                              (case formatControlFlow nextNode [] of
                                 Inl e \<Rightarrow> Inl e
                               | Inr chained \<Rightarrow>
                                   processNode_loop rest' ind
                                     (\<lparr>directive = nextValue, indent = indent block',
                                        contentIndent = indent block' @ ''  ''\<rparr> # popped,
                                      result @ [indent block' @ ''} '' @ trim chained]))
                            else
                              processNode_loop rest ind
                                (popped, result @ [indent block' @ ''}'']))
                     else
                       processNode_loop rest ind
                         (popped, result @ [indent block' @ ''}''])))
         else
           (case nvalue n of
              None \<Rightarrow> Inl TypeError
            | Some value' \<Rightarrow>
                if isControlFlowDirective value' then
                  (let cur = currentIndent blockStack ind;
                       block' = \<lparr>directive = value', indent = cur,
                                  contentIndent = cur @ ''  ''\<rparr>
                   in case formatControlFlow (text_node value') cur of
                        Inl e \<Rightarrow> Inl e
                      | Inr line \<Rightarrow>
                          processNode_loop rest ind (block' # blockStack, result @ [line]))
                else
                  (case formatElement n (currentIndent blockStack ind) of
                     Inl e \<Rightarrow> Inl e
                   | Inr formatted \<Rightarrow>
                       processNode_loop rest ind
                         (blockStack, push_formatted formatted result))))
      else
        (case formatElement n (currentIndent blockStack ind) of
           Inl e \<Rightarrow> Inl e
         | Inr formatted \<Rightarrow>
             processNode_loop rest ind (blockStack, push_formatted formatted result)))"

text \<open>\<^verbatim>\<open>processNode(node, indent)\<close>\<close>

definition processNode ::
  "node \<Rightarrow> string \<Rightarrow> block list \<times> string list \<Rightarrow> error + block list \<times> string list"
where
  "processNode node' ind st =
     (if ntype node' = ''text''
         \<and> (case nvalue node' of None \<Rightarrow> True | Some v \<Rightarrow> v = [] \<or> trim v = [])
      then Inr st
      else processNode_loop
             (if ntype node' = ''text'' then splitTextNode node' else [node']) ind st)"

text \<open>\<^verbatim>\<open>for (const node of nodes) processNode(node, baseIndent)\<close>\<close>

fun formatRoot_nodes ::
  "node list \<Rightarrow> string \<Rightarrow> block list \<times> string list \<Rightarrow> error + block list \<times> string list"
where
  "formatRoot_nodes [] baseIndent st = Inr st"
| "formatRoot_nodes (node' # nodes) baseIndent st =
     (case processNode node' baseIndent st of
        Inl e \<Rightarrow> Inl e
      | Inr st' \<Rightarrow> formatRoot_nodes nodes baseIndent st')"

definition formatRoot :: "node list \<Rightarrow> string \<Rightarrow> error + string" where
  "formatRoot nodes baseIndent =
     (case formatRoot_nodes nodes baseIndent ([], []) of
        Inl e \<Rightarrow> Inl e
      | Inr (blockStack, result) \<Rightarrow> Inr (join_nl result))"

section \<open>The examples of the specification\<close>

text \<open>
  The worked examples of the specification, evaluated on the model: attributes of an
  element with and without content, the spacing of an interpolation, a closer merged
  with the continuation that follows it, and a comment kept as it is.
\<close>

lemma example_multi_attribute_no_content:
  "formatElement
     (Node ''element'' (Some ''app-x'')
        [\<lparr>aname = ''[title]'', avalue = Some ''t''\<rparr>, \<lparr>aname = ''class'', avalue = Some ''c''\<rparr>]
        [] None) []
   = Inr ''<app-x\<newline>  [title]=\"t\"\<newline>  class=\"c\">\<newline></app-x>''"
  by code_simp

lemma example_multi_attribute_content:
  "formatElement
     (Node ''element'' (Some ''app-x'')
        [\<lparr>aname = ''[title]'', avalue = Some ''t''\<rparr>, \<lparr>aname = ''class'', avalue = Some ''c''\<rparr>]
        [text_node ''Hi''] None) []
   = Inr ''<app-x\<newline>    [title]=\"t\"\<newline>    class=\"c\">\<newline>  Hi\<newline></app-x>''"
  by code_simp

lemma example_interpolation:
  "formatRoot [text_node ''{{   value  }}''] [] = Inr ''{{ value }}''
   \<and> formatRoot [text_node ''{{value}}''] [] = Inr ''{{ value }}''"
  by code_simp

lemma example_chaining:
  "formatRoot [text_node ''@if (a) { x } @else { y }''] []
   = Inr ''@if (a) {\<newline>  x\<newline>} @else {\<newline>  y\<newline>}''"
  by code_simp

lemma example_comment:
  "formatElement (Node ''comment'' None [] [] (Some ''\<newline>  kept\<newline>'')) ''  ''
   = Inr ''  <!--\<newline>  kept\<newline>-->''"
  by code_simp

section \<open>White space and trimming\<close>

lemma open_not_space: "\<not> is_space (CHR ''{'')"
  by code_simp

lemma closer_not_space: "\<not> is_space (CHR ''}'')"
  by code_simp

lemma lt_is_space: "is_lt c \<Longrightarrow> is_space c"
  by (auto simp: is_lt_def is_space_def)


lemma space_not_lt: "\<not> is_lt (CHR '' '')"
  by code_simp

lemma set_collapse_ws: "set (collapse_ws s) \<subseteq> insert (CHR '' '') {c \<in> set s. \<not> is_space c}"
  by (induction s rule: collapse_ws.induct) (auto dest: set_dropWhileD)

lemma trim_Nil_iff: "trim s = [] \<longleftrightarrow> (\<forall>c \<in> set s. is_space c)"
proof
  assume "trim s = []"
  then have "dropWhile is_space s = [] \<or> (\<forall>c \<in> set (dropWhile is_space s). is_space c)"
    by (simp add: trim_def dropWhile_eq_Nil_conv)
  moreover have "dropWhile is_space s \<noteq> [] \<Longrightarrow> \<not> is_space (hd (dropWhile is_space s))"
    by (rule hd_dropWhile)
  ultimately have "dropWhile is_space s = []"
    by (cases "dropWhile is_space s") auto
  then show "\<forall>c \<in> set s. is_space c"
    by (simp add: dropWhile_eq_Nil_conv)
next
  assume "\<forall>c \<in> set s. is_space c"
  then show "trim s = []"
    by (auto simp: trim_def dest: set_dropWhileD)
qed

lemma dropWhile_spaces_append:
  "\<forall>c \<in> set w. is_space c \<Longrightarrow> dropWhile is_space (w @ t) = dropWhile is_space t"
  by (simp add: dropWhile_append2)

lemma trim_leading: "\<forall>c \<in> set w. is_space c \<Longrightarrow> trim (w @ x) = trim x"
  by (simp add: trim_def dropWhile_spaces_append)

lemma trim_trailing: "\<forall>c \<in> set w. is_space c \<Longrightarrow> trim (x @ w) = trim x"
proof (cases "\<forall>c \<in> set x. is_space c")
  case True
  assume "\<forall>c \<in> set w. is_space c"
  with True have "trim (x @ w) = []" by (simp add: trim_Nil_iff ball_Un)
  moreover from True have "trim x = []" by (simp add: trim_Nil_iff)
  ultimately show ?thesis by simp
next
  case False
  assume w: "\<forall>c \<in> set w. is_space c"
  from False obtain c where "c \<in> set x" "\<not> is_space c" by blast
  then have "dropWhile is_space (x @ w) = dropWhile is_space x @ w"
    by (simp add: dropWhile_append1)
  moreover from w have "dropWhile is_space (rev w @ rev (dropWhile is_space x))
      = dropWhile is_space (rev (dropWhile is_space x))"
    by (intro dropWhile_spaces_append) simp
  ultimately show ?thesis by (simp add: trim_def)
qed

lemma set_trim: "set (trim x) \<subseteq> set x"
proof
  fix c
  assume "c \<in> set (trim x)"
  then have "c \<in> set (dropWhile is_space (rev (dropWhile is_space x)))"
    by (simp add: trim_def)
  then have "c \<in> set (rev (dropWhile is_space x))" by (rule set_dropWhileD)
  then have "c \<in> set (dropWhile is_space x)" by simp
  then show "c \<in> set x" by (rule set_dropWhileD)
qed

lemma trim_decompose: "x = takeWhile is_space x @ trim x @ trailing_ws x"
proof -
  have "rev (dropWhile is_space x) =
      takeWhile is_space (rev (dropWhile is_space x))
      @ dropWhile is_space (rev (dropWhile is_space x))"
    by simp
  then have "dropWhile is_space x = trim x @ trailing_ws x"
    unfolding trim_def trailing_ws_def by (metis rev_append rev_rev_ident)
  moreover have "x = takeWhile is_space x @ dropWhile is_space x" by simp
  ultimately show ?thesis by simp
qed

lemma spaces_takeWhile: "\<forall>c \<in> set (takeWhile is_space x). is_space c"
  by (auto dest: set_takeWhileD)

lemma spaces_trailing_ws: "\<forall>c \<in> set (trailing_ws x). is_space c"
  by (auto simp: trailing_ws_def dest: set_takeWhileD)



section \<open>The formatter returns normally\<close>

text \<open>
  The only operation of the formatter that can throw reads \<^verbatim>\<open>value\<close> of a fragment
  that has none. The fragments come from the segmenter, which gives each one a value, so
  formatting a node always yields a string.
\<close>

lemma formatControlFlow_total:
  "nvalue p = Some v \<Longrightarrow> \<exists>line. formatControlFlow p ind = Inr line"
  by (simp add: formatControlFlow_def Let_def split: option.splits prod.splits)

lemma formatElement_text_total: "\<exists>r. formatElement (text_node v) ind = Inr r"
  using formatControlFlow_total [of "text_node v" v ind]
  by (auto simp: formatElement.simps text_node_def Let_def)

lemma formatElement_parts_total:
  "\<forall>p \<in> set ps. nvalue p \<noteq> None \<Longrightarrow> \<exists>st'. formatElement_parts ps base st = Inr st'"
proof (induction "length ps" arbitrary: ps st rule: less_induct)
  case less
  show ?case
  proof (cases ps)
    case Nil
    then show ?thesis by simp
  next
    case (Cons part rest)
    obtain stack results where st: "st = (stack, results)" by (cases st)
    from Cons less.prems obtain v where v: "nvalue part = Some v" by auto
    have rest: "\<exists>st'. formatElement_parts rest base s = Inr st'" for s
      using less.hyps [of rest s] less.prems Cons by simp
    show ?thesis
    proof (cases "isControlFlowDirective v")
      case True
      obtain line where "formatControlFlow part (currentIndent stack base) = Inr line"
        using formatControlFlow_total [OF v] by blast
      with True v rest show ?thesis
        unfolding Cons st by (simp add: formatElement_parts.simps(2) [of part rest] Let_def)
    next
      case notcf: False
      show ?thesis
      proof (cases "v = ''}'' \<and> stack \<noteq> []")
        case True
        then obtain b popped where stk: "stack = b # popped" by (cases stack) auto
        show ?thesis
        proof (cases rest)
          case Nil
          with True notcf v stk show ?thesis
            unfolding Cons st by (simp add: formatElement_parts.simps(2) [of part "[]"])
        next
          case (Cons nextPart rest')
          from Cons \<open>ps = part # rest\<close> less.prems obtain nv where nv: "nvalue nextPart = Some nv"
            by auto
          have rest': "\<exists>st'. formatElement_parts rest' base s = Inr st'" for s
            using less.hyps [of rest' s] less.prems Cons \<open>ps = part # rest\<close> by simp
          obtain chained where ch: "formatControlFlow nextPart [] = Inr chained"
            using formatControlFlow_total [OF nv] by blast
          show ?thesis
          proof (cases "isIfChainDirective nv")
            case True
            with \<open>v = ''}'' \<and> stack \<noteq> []\<close> notcf v stk nv ch rest' show ?thesis
              unfolding \<open>ps = part # rest\<close> Cons st
              by (simp add: formatElement_parts.simps(2) [of part "nextPart # rest'"])
          next
            case False
            with \<open>v = ''}'' \<and> stack \<noteq> []\<close> notcf v stk nv rest [unfolded Cons] show ?thesis
              unfolding \<open>ps = part # rest\<close> Cons st
              by (simp add: formatElement_parts.simps(2) [of part "nextPart # rest'"])
          qed
        qed
      next
        case False
        obtain r where "formatElement (text_node v) (currentIndent stack base) = Inr r"
          using formatElement_text_total by blast
        with False notcf v rest show ?thesis
          unfolding Cons st by (auto simp: formatElement_parts.simps(2) [of part rest])
      qed
    qed
  qed
qed

lemma splitTextNode_values:
  "truthy (nvalue child) \<Longrightarrow> \<forall>p \<in> set (splitTextNode child). nvalue p \<noteq> None"
  by (auto simp: splitTextNode_def Let_def text_node_def split: prod.splits)

lemma formatElement_total_aux:
  fixes ps :: "node list" and base' :: string and st' :: "block list \<times> string list"
  shows "\<exists>r. formatElement n ind = Inr r"
    and "\<exists>st'. formatElement_children cs base st = Inr st'"
    and "True"
proof (induction n ind and cs base st and ps base' st'
    rule: formatElement_formatElement_children_formatElement_parts.induct)
  case (1 node' ind)
  show ?case
  proof (cases "ntype node' \<noteq> ''comment'' \<and> \<not> (ntype node' = ''text'' \<and> truthy (nvalue node'))
      \<and> (\<exists>nm. nname node' = Some nm \<and> nm \<noteq> []) \<and> hasContent (nchildren node')
      \<and> 0 < length (nchildren node')")
    case True
    then obtain nm where nm: "nname node' = Some nm" "nm \<noteq> []" by blast
    from True nm have "\<exists>st'. formatElement_children (nchildren node') (ind @ ''  '') ([], []) = Inr st'"
      by (intro "1.IH"[of nm]) auto
    then obtain stk res where "formatElement_children (nchildren node') (ind @ ''  '') ([], []) = Inr (stk, res)"
      by auto
    with True nm show ?thesis
      by (auto simp: formatElement.simps [of node'] Let_def)
  next
    case False
    obtain line where "formatControlFlow node' ind = Inr line \<or> nvalue node' = None"
      using formatControlFlow_total [of node' _ ind] by (cases "nvalue node'") auto
    with False show ?thesis
      by (auto simp: formatElement.simps [of node'] Let_def truthy_def split: option.splits)
  qed
next
  case (2 childBaseIndent st)
  then show ?case by simp
next
  case (3 child rest childBaseIndent nestedBlockStack childResults)
  show ?case
  proof (cases "ntype child = ''text'' \<and> truthy (nvalue child)")
    case True
    then obtain b where b: "formatElement_parts (splitTextNode child) childBaseIndent
        (nestedBlockStack, childResults) = Inr b"
      using formatElement_parts_total [OF splitTextNode_values] by blast
    with True "3.IH"(2) [OF True b] show ?thesis
      by (simp add: formatElement_children.simps(2) [of child rest])
  next
    case False
    from "3.IH"(3) [OF False] obtain b where
      b: "formatElement child (currentIndent nestedBlockStack childBaseIndent) = Inr b" by blast
    with False "3.IH"(4) [OF False b] show ?thesis
      by (auto simp: formatElement_children.simps(2) [of child rest])
  qed
qed simp_all

lemma formatElement_total: "\<exists>r. formatElement n ind = Inr r"
  by (rule formatElement_total_aux(1))

lemma formatElement_children_total: "\<exists>st'. formatElement_children cs base st = Inr st'"
  by (rule formatElement_total_aux(2))

section \<open>Layout of an element\<close>

lemma formatAttributes_single: "formatAttributes [a] i = attrText a"
  by (simp add: formatAttributes_def attrText_def split: option.splits)

lemma formatAttributes_multiple:
  "length attrs \<noteq> 1 \<Longrightarrow>
   formatAttributes attrs (Some i) = join_nl (map (\<lambda>a. i @ attrText a) attrs)"
proof -
  assume "length attrs \<noteq> 1"
  moreover have "(\<lambda>a. case avalue a of None \<Rightarrow> js_str (Some i) @ aname a
      | Some v \<Rightarrow> js_str (Some i) @ (aname a @ ''=\"'' @ v @ ''\"'')) = (\<lambda>a. i @ attrText a)"
    by (auto simp: fun_eq_iff attrText_def js_str_def split: option.splits)
  ultimately show ?thesis by (simp add: formatAttributes_def)
qed

lemma openingTag_multiple:
  "2 \<le> length attrs \<Longrightarrow>
   openingTag nm attrs c ind =
     ind @ ''<'' @ nm @ [CHR 0x0A]
       @ join_nl (map (\<lambda>a. (ind @ (if c then ''    '' else ''  '')) @ attrText a) attrs) @ ''>''"
  by (cases attrs) (auto simp: openingTag_def Let_def formatAttributes_multiple)

lemma openingTag_single: "openingTag nm [a] c ind = ind @ ''<'' @ nm @ '' '' @ attrText a @ ''>''"
  by (simp add: openingTag_def Let_def formatAttributes_single)

lemma openingTag_none: "openingTag nm [] c ind = ind @ ''<'' @ nm @ ''>''"
  by (simp add: openingTag_def Let_def)

lemma formatElement_opening:
  assumes "ntype n \<noteq> ''comment''" and "ntype n \<noteq> ''text''"
    and "nname n = Some nm" and "nm \<noteq> []"
  shows "\<exists>rest. formatElement n ind =
           Inr (openingTag nm (nattrs n) (hasContent (nchildren n)) ind @ rest)"
proof (cases "hasContent (nchildren n) \<and> 0 < length (nchildren n)")
  case True
  obtain stk res where
    "formatElement_children (nchildren n) (ind @ ''  '') ([], []) = Inr (stk, res)"
    using formatElement_children_total [of "nchildren n" "ind @ ''  ''" "([], [])"] by auto
  with True assms show ?thesis
    by (simp add: formatElement.simps [of n] Let_def)
next
  case False
  with assms show ?thesis
    by (auto simp: formatElement.simps [of n] Let_def)
qed

lemma formatElement_inline:
  assumes "ntype n \<noteq> ''comment''" and "ntype n \<noteq> ''text''"
    and "nname n = Some nm" and "nm \<noteq> []"
    and "\<not> hasContent (nchildren n)" and "length (nattrs n) \<le> 1"
  shows "formatElement n ind =
           Inr (openingTag nm (nattrs n) False ind
                @ (if isSelfClosingTag nm then [] else ''</'' @ nm @ ''>''))"
proof -
  from assms(6) have "length (nattrs n) = 1 \<or> nattrs n = []"
    by (cases "nattrs n") auto
  with assms(1-5) show ?thesis
    by (auto simp: formatElement.simps [of n] Let_def)
qed

lemma formatElement_void_no_children:
  assumes "ntype n \<noteq> ''comment''" and "ntype n \<noteq> ''text''"
    and "nname n = Some nm" and "nm \<noteq> []"
    and "nchildren n = []" and "isSelfClosingTag nm"
  shows "formatElement n ind = Inr (openingTag nm (nattrs n) False ind)"
  using assms by (auto simp: formatElement.simps [of n] Let_def hasContent_def)

text \<open>
  C3. An element with two or more attributes is formatted as its indent, \<^verbatim>\<open><name\<close>,
  a newline, and then one line per attribute, joined by newlines and closed by \<^verbatim>\<open>>\<close>.
  Each attribute line is the element's indent, four spaces when the element has
  meaningful content and two when it has none, and the attribute as a bare name or as
  \<^verbatim>\<open>name="value"\<close>. What follows the opening tag is \<open>rest\<close>.
\<close>

theorem formatElement_multiple_attributes:
  assumes "ntype n \<noteq> ''comment''" and "ntype n \<noteq> ''text''"
    and "nname n = Some nm" and "nm \<noteq> []"
    and "2 \<le> length (nattrs n)"
  shows "\<exists>rest. formatElement n ind =
           Inr (ind @ ''<'' @ nm @ [CHR 0x0A]
                @ join_nl (map (\<lambda>a. (ind @ (if hasContent (nchildren n) then ''    '' else ''  ''))
                                      @ attrText a) (nattrs n))
                @ ''>'' @ rest)"
  using formatElement_opening [OF assms(1-4), of ind] openingTag_multiple [OF assms(5)]
  by simp

theorem formatElement_multiple_attributes_witness:
  "\<exists>rest. formatElement
      (Node ''element'' (Some ''app-x'')
         [\<lparr>aname = ''[title]'', avalue = Some ''t''\<rparr>, \<lparr>aname = ''disabled'', avalue = None\<rparr>]
         [text_node ''Hi''] None) ''  '' =
     Inr (''  <app-x\<newline>      [title]=\"t\"\<newline>      disabled>'' @ rest)"
proof -
  have c: "hasContent [text_node ''Hi'']" by code_simp
  show ?thesis
    using formatElement_multiple_attributes [of
      "Node ''element'' (Some ''app-x'')
         [\<lparr>aname = ''[title]'', avalue = Some ''t''\<rparr>, \<lparr>aname = ''disabled'', avalue = None\<rparr>]
         [text_node ''Hi''] None" "''app-x''" "''  ''"] c
    by (simp add: attrText_def)
qed

text \<open>
  C2, as amended. An element with exactly one attribute and no meaningful content is
  formatted as its indent, \<^verbatim>\<open><name\<close>, one space, the attribute, \<^verbatim>\<open>>\<close> and, unless the
  tag is self-closing, \<^verbatim>\<open></name>\<close>. The formatter adds no newline of its own: the
  result holds one exactly when the indent, the tag name or the attribute does.
\<close>

theorem formatElement_single_attribute:
  assumes "ntype n \<noteq> ''comment''" and "ntype n \<noteq> ''text''"
    and "nname n = Some nm" and "nm \<noteq> []"
    and "nattrs n = [a]" and "\<not> hasContent (nchildren n)"
  shows "\<exists>r. formatElement n ind = Inr r
           \<and> r = ind @ ''<'' @ nm @ '' '' @ attrText a @ ''>''
                  @ (if isSelfClosingTag nm then [] else ''</'' @ nm @ ''>'')
           \<and> (CHR 0x0A \<in> set r \<longleftrightarrow>
                CHR 0x0A \<in> set ind \<or> CHR 0x0A \<in> set nm \<or> CHR 0x0A \<in> set (attrText a))"
  using formatElement_inline [OF assms(1-4) assms(6), of ind] assms(5)
  by (auto simp: openingTag_single)

theorem formatElement_single_attribute_witness:
  "\<exists>r. formatElement
      (Node ''element'' (Some ''button'') [\<lparr>aname = ''(click)'', avalue = Some ''go()''\<rparr>]
         [text_node '' ''] None) [] = Inr r
     \<and> r = ''<button (click)=\"go()\"></button>'' \<and> CHR 0x0A \<notin> set r"
proof -
  have c: "\<not> hasContent [text_node '' '']" by code_simp
  have s: "\<not> isSelfClosingTag ''button''" by code_simp
  show ?thesis
    using formatElement_single_attribute [of
      "Node ''element'' (Some ''button'') [\<lparr>aname = ''(click)'', avalue = Some ''go()''\<rparr>]
         [text_node '' ''] None" "''button''" "\<lparr>aname = ''(click)'', avalue = Some ''go()''\<rparr>" "[]"]
      c s
    by (simp add: attrText_def)
qed

text \<open>
  C2 as stated promises a result without any newline. An attribute value is copied as
  it is, so a value that spans two lines gives a result that spans two lines.
\<close>

theorem single_attribute_newline_counterexample:
  "formatElement
     (Node ''element'' (Some ''div'') [\<lparr>aname = ''class'', avalue = Some ''a\<newline>b''\<rparr>] [] None) []
     = Inr ''<div class=\"a\<newline>b\"></div>''
   \<and> CHR 0x0A \<in> set ''<div class=\"a\<newline>b\"></div>''"
  by code_simp

text \<open>
  C5, as amended. For an element whose tag is in the self-closing set, the result is
  the opening tag alone, ending in \<^verbatim>\<open>>\<close> with no closing tag behind it, when the
  element has no children, or has no meaningful content and at most one attribute.
\<close>

theorem formatElement_self_closing:
  assumes "ntype n \<noteq> ''comment''" and "ntype n \<noteq> ''text''"
    and "nname n = Some nm" and "nm \<noteq> []"
    and "isSelfClosingTag nm"
    and "nchildren n = [] \<or> (\<not> hasContent (nchildren n) \<and> length (nattrs n) \<le> 1)"
  shows "formatElement n ind =
           Inr (ind @ ''<'' @ nm
                @ (case nattrs n of
                     [] \<Rightarrow> []
                   | [a] \<Rightarrow> '' '' @ attrText a
                   | _ \<Rightarrow> [CHR 0x0A] @ join_nl (map (\<lambda>a. (ind @ ''  '') @ attrText a) (nattrs n)))
                @ ''>'')"
proof -
  have r: "formatElement n ind = Inr (openingTag nm (nattrs n) False ind)"
  proof (cases "nchildren n = []")
    case True
    then show ?thesis using formatElement_void_no_children [OF assms(1-4) _ assms(5)] by simp
  next
    case False
    with assms(6) have "\<not> hasContent (nchildren n)" "length (nattrs n) \<le> 1" by auto
    then show ?thesis using formatElement_inline [OF assms(1-4)] assms(5) by simp
  qed
  show ?thesis
  proof (cases "nattrs n")
    case Nil
    with r show ?thesis by (simp add: openingTag_none)
  next
    case (Cons a as)
    show ?thesis
    proof (cases as)
      case Nil
      with r Cons show ?thesis by (simp add: openingTag_single)
    next
      case (Cons b bs)
      with \<open>nattrs n = a # as\<close> have "2 \<le> length (nattrs n)" by simp
      from openingTag_multiple [OF this, of nm False ind] r Cons \<open>nattrs n = a # as\<close>
      show ?thesis by simp
    qed
  qed
qed

theorem formatElement_self_closing_witness:
  "formatElement
     (Node ''element'' (Some ''input'')
        [\<lparr>aname = ''type'', avalue = Some ''text''\<rparr>, \<lparr>aname = ''name'', avalue = Some ''x''\<rparr>]
        [] None) [] = Inr ''<input\<newline>  type=\"text\"\<newline>  name=\"x\">''
   \<and> formatElement
     (Node ''element'' (Some ''br'') [] [text_node '' ''] None) ''  '' = Inr ''  <br>''"
proof -
  have s: "isSelfClosingTag ''input''" "isSelfClosingTag ''br''" by code_simp+
  have c: "\<not> hasContent [text_node '' '']" by code_simp
  show ?thesis
    using
      formatElement_self_closing [of
        "Node ''element'' (Some ''input'')
          [\<lparr>aname = ''type'', avalue = Some ''text''\<rparr>, \<lparr>aname = ''name'', avalue = Some ''x''\<rparr>]
          [] None" "''input''" "[]"]
      formatElement_self_closing [of
        "Node ''element'' (Some ''br'') [] [text_node '' ''] None" "''br''" "''  ''"]
      s c
    by (simp add: attrText_def)
qed

text \<open>
  C5 as stated holds whatever the children are. The early return for self-closing tags
  is guarded by \<^verbatim>\<open>!hasChildren\<close>: a \<^verbatim>\<open>br\<close> with a text child gets its closing tag.
\<close>

theorem self_closing_children_counterexample:
  "formatElement (Node ''element'' (Some ''br'') [] [text_node ''x''] None) []
     = Inr ''<br>\<newline>  x\<newline></br>''"
  by code_simp

section \<open>Block closers\<close>

lemma closer_not_directive: "\<not> isControlFlowDirective ''}''"
  by code_simp

lemma closer_not_interpolation: "\<not> isInterpolation ''}''"
  by code_simp

lemma trim_closer: "trim ''}'' = ''}''"
  by code_simp

lemma formatElement_closer_text: "formatElement (text_node ''}'') ind = Inr (ind @ ''}'')"
  by (simp add: formatElement.simps text_node_def truthy_def js_str_def trim_closer
      closer_not_directive closer_not_interpolation)

lemma push_formatted_closer: "push_formatted (ind @ ''}'') res = res @ [ind @ ''}'']"
  using closer_not_space by (auto simp: push_formatted_def trim_Nil_iff)

lemma lazy_to_brace_set: "lazy_to_brace s = Some (m, r) \<Longrightarrow> set m \<subseteq> set s"
  by (induction s arbitrary: m) (auto split: if_splits)

lemma word_plus_to_brace_set: "word_plus_to_brace s = Some (m, r) \<Longrightarrow> set m \<subseteq> set s"
proof (induction s arbitrary: m)
  case Nil
  then show ?case by simp
next
  case (Cons c cs)
  show ?case
  proof (cases "word_plus_to_brace cs")
    case None
    with Cons.prems obtain m' where "m = c # m'" "lazy_to_brace cs = Some (m', r)"
      by (auto split: if_splits)
    with lazy_to_brace_set [of cs m' r] show ?thesis by auto
  next
    case (Some p)
    then obtain m' r' where p: "p = (m', r')" by (cases p)
    with Some Cons.prems have "m = c # m'" "r = r'" by (auto split: if_splits)
    with Cons.IH [of m'] Some p show ?thesis by auto
  qed
qed

lemma directive_match_set: "directive_match s = Some fm \<Longrightarrow> set fm \<subseteq> set s"
proof -
  assume a: "directive_match s = Some fm"
  then obtain c r where s: "s = c # r" by (cases s) (auto simp: directive_match_def)
  with a obtain m r' where "fm = c # m" "word_plus_to_brace r = Some (m, r')"
    by (auto simp: directive_match_def split: if_splits)
  with word_plus_to_brace_set [of r m r'] s show ?thesis by auto
qed

lemma parts_match_no_lt:
  assumes "parts_match s = Some (dn, cond)" and "\<forall>c \<in> set s. \<not> is_lt c"
  shows "\<forall>c \<in> set dn. \<not> is_lt c" and "\<forall>c \<in> set cond. \<not> is_lt c"
proof -
  from assms(1) obtain c r where s: "s = c # r" by (cases s) (auto simp: parts_match_def)
  have i: "\<not> is_lt (CHR ''i'')" "\<not> is_lt (CHR ''f'')" by code_simp+
  from assms(1) s have dn: "dn = c # takeWhile is_word r @ takeWhile is_space (dropWhile is_word r) @ ''if''
      \<or> dn = c # takeWhile is_word r"
    by (auto simp: parts_match_def Let_def split: if_splits)
  have "\<forall>x \<in> set (takeWhile is_word r). \<not> is_lt x"
    using assms(2) s by (auto dest: set_takeWhileD)
  moreover have "\<forall>x \<in> set (takeWhile is_space (dropWhile is_word r)). \<not> is_lt x"
    using assms(2) s by (auto dest!: set_takeWhileD set_dropWhileD)
  moreover have "\<not> is_lt c" using assms(2) s by simp
  ultimately show "\<forall>c \<in> set dn. \<not> is_lt c"
    using dn i by auto
  from assms(1) s obtain r3 where "cond = takeWhile dot r3"
    by (auto simp: parts_match_def Let_def split: if_splits)
  then show "\<forall>c \<in> set cond. \<not> is_lt c"
    by (auto simp: dot_def dest: set_takeWhileD)
qed

lemma collapse_ws_no_lt: "\<forall>c \<in> set (collapse_ws s). \<not> is_lt c"
  using set_collapse_ws [of s] lt_is_space space_not_lt by auto

lemma set_butlast_subset: "set (butlast xs) \<subseteq> set xs"
  by (auto dest: in_set_butlastD)

lemma formatControlFlow_cases:
  assumes "nvalue p = Some v"
  shows "\<exists>line. formatControlFlow p [] = Inr line
     \<and> (directive_match (collapse_ws (trim v)) = None \<longrightarrow> line = trim v)
     \<and> (directive_match (collapse_ws (trim v)) \<noteq> None \<longrightarrow> \<not> list_ex is_lt line)"
proof (cases "directive_match (collapse_ws (trim v))")
  case None
  with assms show ?thesis by (simp add: formatControlFlow_def Let_def)
next
  case (Some fm)
  define d where "d = trim (butlast fm)"
  have "set d \<subseteq> set (collapse_ws (trim v))"
    unfolding d_def using set_trim [of "butlast fm"] set_butlast_subset [of fm]
      directive_match_set [OF Some] by blast
  with collapse_ws_no_lt have d: "\<forall>c \<in> set d. \<not> is_lt c" by blast
  have b: "\<not> is_lt (CHR '' '')" "\<not> is_lt (CHR ''{'')" by code_simp+
  show ?thesis
  proof (cases "parts_match d")
    case None
    with Some assms d b show ?thesis
      by (auto simp: formatControlFlow_def Let_def d_def [symmetric] list_ex_iff)
  next
    case (Some q)
    then obtain dn cond where q: "parts_match d = Some (dn, cond)" by (cases q) auto
    from parts_match_no_lt [OF q d] set_trim [of cond]
    have "\<forall>c \<in> set dn. \<not> is_lt c" "\<forall>c \<in> set (trim cond). \<not> is_lt c" by auto
    with \<open>directive_match (collapse_ws (trim v)) = Some fm\<close> assms d b q show ?thesis
      by (auto simp: formatControlFlow_def Let_def d_def [symmetric] list_ex_iff)
  qed
qed

text \<open>
  C1, as amended. In the fragment loop of an element and in that of the root, let a
  block \<open>b\<close> be open (on top of the stack) and let a closer fragment be followed, among
  the fragments of the same text node, by a chain-continuation fragment. The loop then
  pops \<open>b\<close>, adds the one entry made of the indent of \<open>b\<close>, \<^verbatim>\<open>} \<close> and the formatted
  continuation, skips the continuation fragment and goes on with a new block on the
  stack whose indent is the indent of \<open>b\<close> and whose \<^verbatim>\<open>contentIndent\<close> is that indent
  and two spaces. The continuation thus sits at the indent of the block it continues,
  never deeper. When \<^verbatim>\<open>/^(@\w+.*?){/\<close> finds the directive in the normalised
  continuation, the entry holds no line terminator from \<^verbatim>\<open>} \<close> on; when it does not,
  the continuation is its trimmed text as it stands. A closer that is the last fragment
  of its text node is popped and emitted alone.
\<close>

theorem closer_chain_continuation:
  assumes "ntype closer = ''text''" and "nvalue closer = Some ''}''"
    and "ntype nxt = ''text''" and "nvalue nxt = Some nv" and "isIfChainDirective nv"
  shows "\<exists>continuation. formatControlFlow nxt [] = Inr continuation
     \<and> formatElement_parts (closer # nxt # rest) base (b # stack, results) =
         formatElement_parts rest base
           (\<lparr>directive = nv, indent = indent b, contentIndent = indent b @ ''  ''\<rparr> # stack,
            results @ [indent b @ ''} '' @ trim continuation])
     \<and> processNode_loop (closer # nxt # rest) ind (b # stack, results) =
         processNode_loop rest ind
           (\<lparr>directive = nv, indent = indent b, contentIndent = indent b @ ''  ''\<rparr> # stack,
            results @ [indent b @ ''} '' @ trim continuation])
     \<and> (directive_match (collapse_ws (trim nv)) = None \<longrightarrow> continuation = trim nv)
     \<and> (directive_match (collapse_ws (trim nv)) \<noteq> None \<longrightarrow>
           \<not> list_ex is_lt (''} '' @ trim continuation))
     \<and> formatElement_parts [closer] base (b # stack, results) =
           Inr (stack, results @ [indent b @ ''}''])
     \<and> processNode_loop [closer] ind (b # stack, results) =
           Inr (stack, results @ [indent b @ ''}''])"
proof -
  obtain continuation where c: "formatControlFlow nxt [] = Inr continuation"
    and c1: "directive_match (collapse_ws (trim nv)) = None \<longrightarrow> continuation = trim nv"
    and c2: "directive_match (collapse_ws (trim nv)) \<noteq> None \<longrightarrow> \<not> list_ex is_lt continuation"
    using formatControlFlow_cases [OF assms(4)] by auto
  have e: "formatElement_parts (closer # nxt # rest) base (b # stack, results) =
         formatElement_parts rest base
           (\<lparr>directive = nv, indent = indent b, contentIndent = indent b @ ''  ''\<rparr> # stack,
            results @ [indent b @ ''} '' @ trim continuation])"
    using assms c closer_not_directive
    by (simp add: formatElement_parts.simps(2) [of closer "nxt # rest"])
  have r: "processNode_loop (closer # nxt # rest) ind (b # stack, results) =
         processNode_loop rest ind
           (\<lparr>directive = nv, indent = indent b, contentIndent = indent b @ ''  ''\<rparr> # stack,
            results @ [indent b @ ''} '' @ trim continuation])"
    using assms c by simp
  have l: "directive_match (collapse_ws (trim nv)) \<noteq> None \<longrightarrow>
           \<not> list_ex is_lt (''} '' @ trim continuation)"
  proof
    assume "directive_match (collapse_ws (trim nv)) \<noteq> None"
    with c2 have "\<forall>c \<in> set continuation. \<not> is_lt c" by (simp add: list_ex_iff)
    with set_trim [of continuation] have "\<forall>c \<in> set (trim continuation). \<not> is_lt c" by blast
    moreover have "\<not> is_lt (CHR ''}'')" "\<not> is_lt (CHR '' '')" by code_simp+
    ultimately show "\<not> list_ex is_lt (''} '' @ trim continuation)"
      by (simp add: list_ex_iff)
  qed
  have pe: "formatElement_parts [closer] base (b # stack, results) =
           Inr (stack, results @ [indent b @ ''}''])"
    using assms(2) closer_not_directive
    by (simp add: formatElement_parts.simps(2) [of closer "[]"])
  have pr: "processNode_loop [closer] ind (b # stack, results) =
           Inr (stack, results @ [indent b @ ''}''])"
    using assms(1,2) by simp
  show ?thesis
    by (rule exI [of _ continuation]) (intro conjI c e r c1 l pe pr)
qed

theorem closer_chain_continuation_witness:
  "formatElement_parts [text_node ''}'', text_node ''@else   {''] ''  ''
     ([\<lparr>directive = ''@if (a) {'', indent = ''  '', contentIndent = ''    ''\<rparr>],
      [''  @if (a) {'', ''    x'']) =
   Inr ([\<lparr>directive = ''@else   {'', indent = ''  '', contentIndent = ''    ''\<rparr>],
        [''  @if (a) {'', ''    x'', ''  } @else {''])
   \<and> processNode_loop [text_node ''}'', text_node ''@else   {''] []
     ([\<lparr>directive = ''@if (a) {'', indent = [], contentIndent = ''  ''\<rparr>],
      [''@if (a) {'', ''  x'']) =
   Inr ([\<lparr>directive = ''@else   {'', indent = [], contentIndent = ''  ''\<rparr>],
        [''@if (a) {'', ''  x'', ''} @else {''])
   \<and> \<not> list_ex is_lt ''} @else {''
   \<and> processNode_loop [text_node ''}''] []
     ([\<lparr>directive = ''@if (a) {'', indent = [], contentIndent = ''  ''\<rparr>],
      [''@if (a) {'', ''  x'']) =
   Inr ([], [''@if (a) {'', ''  x'', ''}''])"
proof -
  have h: "isIfChainDirective ''@else   {''" by code_simp
  have f: "formatControlFlow (text_node ''@else   {'') [] = Inr ''@else {''" by code_simp
  have t: "trim ''@else {'' = ''@else {''" by code_simp
  have d: "directive_match (collapse_ws (trim ''@else   {'')) \<noteq> None" by code_simp
  have n: "ntype (text_node ''}'') = ''text''" "nvalue (text_node ''}'') = Some ''}''"
    "ntype (text_node ''@else   {'') = ''text''"
    "nvalue (text_node ''@else   {'') = Some ''@else   {''"
    by (simp_all add: text_node_def)
  show ?thesis
    using
      closer_chain_continuation [OF n h, of "[]" "''  ''"
        "\<lparr>directive = ''@if (a) {'', indent = ''  '', contentIndent = ''    ''\<rparr>" "[]"
        "[''  @if (a) {'', ''    x'']" "[]"]
      closer_chain_continuation [OF n h, of "[]" "''  ''"
        "\<lparr>directive = ''@if (a) {'', indent = [], contentIndent = ''  ''\<rparr>" "[]"
        "[''@if (a) {'', ''  x'']" "[]"]
      f t d
    by simp
qed

text \<open>
  C1 as stated speaks of every child sequence. The loops look ahead inside the fragments
  of one text node only: a closer that ends one text child and a continuation that
  starts the next are not merged, in the root and in an element alike. With no block
  open nothing is popped. A continuation without its brace keeps the line break it has.
\<close>

theorem closer_chain_continuation_counterexample:
  "formatRoot [text_node ''@if (a) { x }'', text_node ''@else { y }''] []
     = Inr ''@if (a) {\<newline>  x\<newline>}\<newline>@else {\<newline>  y\<newline>}''
   \<and> formatElement
       (Node ''element'' (Some ''div'') []
          [text_node ''@if (a) { x }'', text_node ''@else { y }''] None) []
     = Inr ''<div>\<newline>  @if (a) {\<newline>    x\<newline>  }\<newline>  @else {\<newline>    y\<newline>  }\<newline></div>''
   \<and> formatRoot [text_node ''} @else {''] [] = Inr ''@else {''
   \<and> formatRoot [text_node ''@if (a) { x } @else\<newline>foo''] []
     = Inr ''@if (a) {\<newline>  x\<newline>} @else\<newline>foo''"
  by code_simp

text \<open>
  C4, as amended. A closer fragment met while the block stack is empty raises no error
  in either loop. The root loop drops it: it goes on with the fragments behind the
  closer from the very state it was in. The element loop does not drop it: the closer is
  formatted as regular text and adds the line made of the child base indent and \<^verbatim>\<open>}\<close>.
\<close>

theorem closer_empty_stack:
  assumes "ntype closer = ''text''" and "nvalue closer = Some ''}''"
  shows "processNode_loop (closer # rest) ind ([], results) =
           processNode_loop rest ind ([], results)
     \<and> formatElement_parts (closer # rest) base ([], results) =
           formatElement_parts rest base ([], results @ [base @ ''}''])"
  using assms closer_not_directive
  by (simp add: formatElement_parts.simps(2) [of closer rest] currentIndent_def
      formatElement_closer_text push_formatted_closer)

theorem closer_empty_stack_witness:
  "processNode_loop [text_node ''}'', text_node ''x''] [] ([], [''a'']) =
     processNode_loop [text_node ''x''] [] ([], [''a''])
   \<and> formatElement_parts [text_node ''}'', text_node ''x''] ''  '' ([], [''  a'']) =
     formatElement_parts [text_node ''x''] ''  '' ([], [''  a'', ''  }''])"
proof -
  have n: "ntype (text_node ''}'') = ''text''" "nvalue (text_node ''}'') = Some ''}''"
    by (simp_all add: text_node_def)
  show ?thesis
    using closer_empty_stack [OF n, of "[text_node ''x'']" "[]" "[''a'']" "''  ''"]
      closer_empty_stack [OF n, of "[text_node ''x'']" "[]" "[''  a'']" "''  ''"]
    by simp
qed

text \<open>
  C4 as stated has both loops drop the closer and leave the output as if the closer were
  absent. In an element the closer comes out as a line of its own. In the root the
  closer is dropped, yet the closer before it has already been emitted alone, having seen
  the dropped one as its next fragment: the output differs from that of the same text
  without the stray closer, where closer and continuation are merged.
\<close>

theorem closer_empty_stack_counterexample:
  "formatElement (Node ''element'' (Some ''div'') [] [text_node ''}''] None) []
     = Inr ''<div>\<newline>  }\<newline></div>''
   \<and> formatRoot [text_node ''@if (a) { } } @else { }''] []
     = Inr ''@if (a) {\<newline>}\<newline>@else {\<newline>}''
   \<and> formatRoot [text_node ''@if (a) { } @else { }''] []
     = Inr ''@if (a) {\<newline>} @else {\<newline>}''"
  by code_simp

section \<open>Interpolation\<close>

lemma isInterpolation_shape:
  assumes "interpolation_shape s"
  shows "isInterpolation s"
proof -
  from assms obtain w1 w2 m w3 w4 where
    s: "s = w1 @ ''{{'' @ w2 @ m @ w3 @ ''}}'' @ w4"
    and w: "\<forall>c \<in> set w1. is_space c" "\<forall>c \<in> set w2. is_space c"
      "\<forall>c \<in> set w3. is_space c" "\<forall>c \<in> set w4. is_space c"
    and m: "\<forall>c \<in> set m. \<not> is_lt c"
    by (auto simp: interpolation_shape_def)
  have 1: "dropWhile is_space s = CHR ''{'' # CHR ''{'' # (w2 @ m @ w3) @ ''}}'' @ w4"
    unfolding s using w(1) open_not_space by (simp add: dropWhile_append2)
  have 2: "dropWhile is_space (rev ((w2 @ m @ w3) @ ''}}'' @ w4))
      = CHR ''}'' # CHR ''}'' # rev (w2 @ m @ w3)"
    using dropWhile_spaces_append [of "rev w4" "CHR ''}'' # CHR ''}'' # rev (w2 @ m @ w3)"]
      w(4) closer_not_space by simp
  have "trim (w2 @ m @ w3) = trim m"
    using trim_leading [OF w(2)] trim_trailing [OF w(3), of m] by simp
  with m set_trim [of m] have 3: "\<not> list_ex is_lt (trim (w2 @ m @ w3))"
    by (auto simp: list_ex_iff)
  show ?thesis
    unfolding isInterpolation_def 1 using 2 3 by simp
qed

lemma shape_isInterpolation:
  assumes "isInterpolation s"
  shows "interpolation_shape s"
proof -
  from assms obtain r where r: "dropWhile is_space s = CHR ''{'' # CHR ''{'' # r"
    by (auto simp: isInterpolation_def split: list.splits)
  with assms obtain w where w: "dropWhile is_space (rev r) = CHR ''}'' # CHR ''}'' # w"
    and lt: "\<not> list_ex is_lt (trim (rev w))"
    by (auto simp: isInterpolation_def split: list.splits)
  have "s = takeWhile is_space s @ dropWhile is_space s" by simp
  with r have s: "s = takeWhile is_space s @ ''{{'' @ r" by simp
  have "rev r = takeWhile is_space (rev r) @ dropWhile is_space (rev r)" by simp
  with w have "rev r = takeWhile is_space (rev r) @ ''}}'' @ w" by simp
  then have "rev (rev r) = rev (takeWhile is_space (rev r) @ ''}}'' @ w)" by simp
  then have r': "r = rev w @ ''}}'' @ rev (takeWhile is_space (rev r))" by simp
  have d: "rev w = takeWhile is_space (rev w) @ trim (rev w) @ trailing_ws (rev w)"
    by (rule trim_decompose)
  have "s = takeWhile is_space s @ ''{{'' @ takeWhile is_space (rev w) @ trim (rev w)
      @ trailing_ws (rev w) @ ''}}'' @ rev (takeWhile is_space (rev r))"
    using s r' d by (metis append.assoc)
  moreover have "\<forall>c \<in> set (takeWhile is_space s @ takeWhile is_space (rev w)
      @ trailing_ws (rev w) @ rev (takeWhile is_space (rev r))). is_space c"
    using spaces_takeWhile spaces_trailing_ws by (auto dest: set_takeWhileD)
  moreover from lt have "\<forall>c \<in> set (trim (rev w)). \<not> is_lt c"
    by (simp add: list_ex_iff)
  ultimately show ?thesis
    unfolding interpolation_shape_def by blast
qed

text \<open>
  C8, as amended. \<^verbatim>\<open>isInterpolation\<close> holds exactly for the strings made of optional
  white space, \<^verbatim>\<open>{{\<close>, any characters other than line terminators (with white space,
  line terminators included, allowed at both ends), \<^verbatim>\<open>}}\<close> and optional white space.
  The middle part may itself hold \<^verbatim>\<open>}}\<close> and \<^verbatim>\<open>{{\<close>: text before the first \<^verbatim>\<open>{{\<close> or
  behind the last \<^verbatim>\<open>}}\<close> is refused, a second span or text between two spans is not.
\<close>

theorem isInterpolation_iff:
  "isInterpolation s \<longleftrightarrow>
     (\<exists>w1 w2 m w3 w4.
        s = w1 @ ''{{'' @ w2 @ m @ w3 @ ''}}'' @ w4
        \<and> (\<forall>c \<in> set (w1 @ w2 @ w3 @ w4). is_space c) \<and> (\<forall>c \<in> set m. \<not> is_lt c))"
  using isInterpolation_shape shape_isInterpolation
  unfolding interpolation_shape_def by blast

theorem isInterpolation_iff_witness:
  "isInterpolation ''  {{ user.name }} ''"
proof -
  have "''  {{ user.name }} '' = ''  '' @ ''{{'' @ '' '' @ ''user.name'' @ '' '' @ ''}}'' @ '' ''
      \<and> (\<forall>c \<in> set (''  '' @ '' '' @ '' '' @ '' ''). is_space c)
      \<and> (\<forall>c \<in> set ''user.name''. \<not> is_lt c)"
    by (simp add: is_space_def is_lt_def)
  then show ?thesis
    using isInterpolation_iff [of "''  {{ user.name }} ''"] by blast
qed

text \<open>
  C8 as stated has the predicate refuse every string with two spans or with text
  outside a span. The lazy star between the delimiters still has to reach the end of
  the string, so it runs over the first \<^verbatim>\<open>}}\<close>.
\<close>

theorem isInterpolation_two_spans_counterexample:
  "isInterpolation ''{{a}} {{b}}'' \<and> isInterpolation ''{{a}} and {{b}}''"
  by code_simp




















section \<open>Segmenting plain text\<close>

lemma close_at_closer: "close_at s = Some r \<Longrightarrow> CHR ''}'' \<in> set s"
proof -
  assume "close_at s = Some r"
  then obtain d where "dropWhile is_space s = CHR ''}'' # d"
    by (auto simp: close_at_def split: list.splits if_splits)
  then have "CHR ''}'' \<in> set (dropWhile is_space s)" by simp
  then show ?thesis by (rule set_dropWhileD)
qed

lemma lazy_close_closer: "lazy_close X s = Some res \<Longrightarrow> CHR ''}'' \<in> set s"
proof (induction s arbitrary: res)
  case Nil
  then show ?case by (auto dest: close_at_closer)
next
  case (Cons c cs)
  show ?case
  proof (cases "close_at (c # cs)")
    case None
    with Cons.prems obtain res' where "lazy_close X cs = Some res'"
      by (auto split: if_splits)
    then have "CHR ''}'' \<in> set cs" by (rule Cons.IH)
    then show ?thesis by simp
  next
    case (Some r)
    then show ?thesis by (rule close_at_closer)
  qed
qed

lemma ws_lazy_close_closer: "ws_lazy_close X s = Some res \<Longrightarrow> CHR ''}'' \<in> set s"
proof (induction s arbitrary: res)
  case Nil
  then show ?case by (auto simp: close_at_def)
next
  case (Cons c cs)
  show ?case
  proof (cases "is_space c \<and> ws_lazy_close X cs \<noteq> None")
    case True
    then obtain res' where "ws_lazy_close X cs = Some res'" by auto
    then have "CHR ''}'' \<in> set cs" by (rule Cons.IH)
    then show ?thesis by simp
  next
    case False
    with Cons.prems have "lazy_close X (c # cs) = Some res"
      by (auto split: if_splits option.splits)
    then show ?thesis by (rule lazy_close_closer)
  qed
qed

lemma interp_match_None: "CHR ''}'' \<notin> set s \<Longrightarrow> interp_match X s = None"
proof (rule ccontr)
  assume n: "CHR ''}'' \<notin> set s" and "interp_match X s \<noteq> None"
  then obtain res where "interp_match X s = Some res" by auto
  then obtain t where "s = CHR ''{'' # CHR ''{'' # t" "ws_lazy_close X t = Some res"
    by (auto simp: interp_match_def split: list.splits if_splits)
  with ws_lazy_close_closer [of X t res] n show False by simp
qed

lemma protect_plain: "CHR ''}'' \<notin> set s \<Longrightarrow> protect s is = (s, is)"
proof (induction s)
  case Nil
  then show ?case by simp
next
  case (Cons c cs)
  then have "interp_match any_char (c # cs) = None" by (intro interp_match_None)
  with Cons show ?case by simp
qed

lemma split_sep_plain:
  "\<forall>t \<in> set (suffixes s). sep_match t = None \<Longrightarrow> split_sep cur s = [rev cur @ s]"
  by (induction s arbitrary: cur) auto

lemma restore_plain:
  "\<forall>t \<in> set (suffixes s). placeholder_match t = None \<Longrightarrow> restore is s = s"
  by (induction s) auto

lemma no_separator_iff:
  "\<not> has_separator s \<longleftrightarrow> (\<forall>t \<in> set (suffixes s). sep_match t = None)"
  by (simp only: has_separator_def list_ex_iff bex_simps not_not)

lemma no_placeholder_iff:
  "\<not> has_placeholder s \<longleftrightarrow> (\<forall>t \<in> set (suffixes s). placeholder_match t = None)"
  by (simp only: has_placeholder_def list_ex_iff bex_simps not_not)

lemma no_separator_no_closer:
  assumes "\<not> has_separator s"
  shows "CHR ''}'' \<notin> set s"
proof
  assume "CHR ''}'' \<in> set s"
  then obtain a b where "s = a @ CHR ''}'' # b" by (auto simp: in_set_conv_decomp)
  then have "suffix (CHR ''}'' # b) s" by (simp add: suffix_def)
  moreover have "sep_match (CHR ''}'' # b) \<noteq> None" by (simp add: sep_match_def)
  ultimately show False using assms by (auto simp: has_separator_def list_ex_iff)
qed

text \<open>
  C6, as amended. For a text node whose value is absent or empty the segmenter returns
  the one-element sequence that holds the node itself. For a text node whose value is
  not blank and has no closer and no directive marker (hence no interpolation either),
  and whose trimmed value holds no placeholder token, it returns exactly one plain-text
  fragment, the trimmed value.
\<close>

theorem splitTextNode_plain:
  "(\<not> truthy (nvalue n) \<longrightarrow> splitTextNode n = [n])
   \<and> (\<not> has_separator v \<and> \<not> has_placeholder (trim v) \<and> trim v \<noteq> []
        \<longrightarrow> splitTextNode (Node ty nm as cs (Some v)) = [text_node (trim v)])"
proof (intro conjI impI)
  assume "\<not> truthy (nvalue n)"
  then show "splitTextNode n = [n]" by (simp add: splitTextNode_def)
next
  assume a: "\<not> has_separator v \<and> \<not> has_placeholder (trim v) \<and> trim v \<noteq> []"
  then have v: "v \<noteq> []" by (auto simp: trim_def)
  from a have "CHR ''}'' \<notin> set v" by (intro no_separator_no_closer) simp
  then have p: "protect v [] = (v, [])" by (rule protect_plain)
  from a have "\<not> has_separator v" by simp
  then have "\<forall>t \<in> set (suffixes v). sep_match t = None"
    by (simp only: no_separator_iff)
  then have s: "split_sep [] v = [v]"
    using split_sep_plain [of v "[]"] by simp
  from a have "\<not> has_placeholder (trim v)" by simp
  then have "\<forall>t \<in> set (suffixes (trim v)). placeholder_match t = None"
    by (simp only: no_placeholder_iff)
  then have r: "restore [] (trim v) = trim v"
    by (rule restore_plain)
  from a v p s r show "splitTextNode (Node ty nm as cs (Some v)) = [text_node (trim v)]"
    by (simp add: splitTextNode_def truthy_def)
qed

theorem splitTextNode_plain_witness:
  "splitTextNode (Node ''text'' None [] [] None) = [Node ''text'' None [] [] None]
   \<and> splitTextNode (Node ''text'' None [] [] (Some [])) = [Node ''text'' None [] [] (Some [])]
   \<and> splitTextNode (Node ''text'' None [] [] (Some ''  Hello, {world \<newline>''))
       = [text_node ''Hello, {world'']"
proof -
  have 1: "\<not> truthy (nvalue (Node ''text'' None [] [] None))"
    "\<not> truthy (nvalue (Node ''text'' None [] [] (Some [])))"
    by (simp_all add: truthy_def)
  have 2: "\<not> has_separator ''  Hello, {world \<newline>''" by code_simp
  have 3: "trim ''  Hello, {world \<newline>'' = ''Hello, {world''" by code_simp
  have 4: "\<not> has_placeholder ''Hello, {world''" by code_simp
  show ?thesis
    using splitTextNode_plain [of "Node ''text'' None [] [] None"]
      splitTextNode_plain [of "Node ''text'' None [] [] (Some [])"]
      splitTextNode_plain [of _ "''  Hello, {world \<newline>''" "''text''" None "[]" "[]"]
      1 2 3 4
    by simp
qed

text \<open>
  C6 as stated gives the empty sequence for an absent value and one fragment for every
  value without directive, closer and interpolation. The first guard of the segmenter
  returns the node; a blank value leaves no fragment at all; and a value that spells a
  placeholder token comes back as the missing array element it names.
\<close>

theorem splitTextNode_counterexample:
  "splitTextNode (Node ''text'' None [] [] None) = [Node ''text'' None [] [] None]
   \<and> splitTextNode (text_node ''  '') = []
   \<and> splitTextNode (text_node ''__INTERPOLATION0__'') = [text_node ''undefined'']"
  by code_simp

section \<open>Nodes without a name\<close>

text \<open>
  C10. A node that is neither a comment nor a text node and whose \<^verbatim>\<open>name\<close> is absent
  or empty is formatted as the empty string, whatever attributes and children it
  carries, and the formatter returns normally (\<open>Inr\<close>).
\<close>

theorem formatElement_no_name:
  assumes "ntype n \<noteq> ''comment''" and "ntype n \<noteq> ''text''"
    and "nname n = None \<or> nname n = Some []"
  shows "formatElement n ind = Inr []"
  using assms by (auto simp: formatElement.simps)

theorem formatElement_no_name_witness:
  "formatElement
     (Node ''element'' None [\<lparr>aname = ''id'', avalue = Some ''a''\<rparr>] [text_node ''x''] None)
     ''  '' = Inr []
   \<and> formatElement
     (Node ''element'' (Some []) [] [Node ''element'' (Some ''p'') [] [] None] None)
     [] = Inr []"
  using
    formatElement_no_name [of
      "Node ''element'' None [\<lparr>aname = ''id'', avalue = Some ''a''\<rparr>] [text_node ''x''] None"
      "''  ''"]
    formatElement_no_name [of
      "Node ''element'' (Some []) [] [Node ''element'' (Some ''p'') [] [] None] None" "[]"]
  by simp

end
